theory Spec2Isabelle
  imports Complex_Main "HOL-Library.Char_ord" "HOL-Library.List_Lexorder"
begin

section \<open>The Monaco archive tool: data model\<close>

text \<open>
  The development embeds \<^verbatim>\<open>monaco_archive.py\<close>. Python floats (time stamps, weeks) are
  idealised as \<^typ>\<open>real\<close>; a Python \<^verbatim>\<open>str\<close> is a \<^typ>\<open>string\<close>, compared
  lexicographically character by character as Python does; an exception is a value of
  \<open>error\<close> on the left of a sum.
\<close>

datatype error = ValueError | OSError

text \<open>
  A \<^verbatim>\<open>pathlib.Path\<close> is the list of its components. \<^verbatim>\<open>Path.name\<close> is the last
  component (the empty string for the empty path), \<^verbatim>\<open>joinpath\<close> with a single relative
  component appends it (joining the empty string changes nothing).
\<close>

type_synonym path = "string list"

definition path_name :: "path \<Rightarrow> string" where
  "path_name p = (if p = [] then [] else last p)"

definition joinpath :: "path \<Rightarrow> string \<Rightarrow> path" where
  "joinpath p s = (if s = [] then p else p @ [s])"

text \<open>
  The file system, as the calls of the program see it: a partial map from paths to nodes.
  A node carries its modification time (\<^verbatim>\<open>st_mtime\<close>); a directory also carries the names
  of its entries in the order a scan yields them. An entry of a directory may itself be
  missing from the map (a dangling link): listing shows it, \<^verbatim>\<open>stat\<close> fails on it.
\<close>

datatype node = File real | Dir real "string list"

type_synonym filesystem = "path \<Rightarrow> node option"

fun st_mtime :: "node \<Rightarrow> real" where
  "st_mtime (File t) = t"
| "st_mtime (Dir t ns) = t"

text \<open>\<^verbatim>\<open>Path.exists()\<close>: whether \<^verbatim>\<open>stat\<close> succeeds.\<close>

definition path_exists :: "filesystem \<Rightarrow> path \<Rightarrow> bool" where
  "path_exists fs p = (fs p \<noteq> None)"

text \<open>\<^verbatim>\<open>os.path.getmtime(p)\<close>: raises \<^verbatim>\<open>OSError\<close> when \<^verbatim>\<open>stat\<close> fails.\<close>

definition getmtime :: "filesystem \<Rightarrow> path \<Rightarrow> error + real" where
  "getmtime fs p = (case fs p of None \<Rightarrow> Inl OSError | Some n \<Rightarrow> Inr (st_mtime n))"

text \<open>
  \<^verbatim>\<open>list(p.glob("*"))\<close>: the entries of \<open>p\<close> when \<open>p\<close> is a directory, and nothing (no
  exception) when \<open>p\<close> is absent or is not a directory.
\<close>

definition glob_star :: "filesystem \<Rightarrow> path \<Rightarrow> path list" where
  "glob_star fs p =
     (case fs p of
        Some (Dir t ns) \<Rightarrow> map (joinpath p) ns
      | _ \<Rightarrow> [])"

text \<open>
  A Python \<^verbatim>\<open>dict\<close> keeps its keys in insertion order: \<^verbatim>\<open>d[k] = v\<close> overwrites the value
  of a key already present, in place, and appends a new key at the end.
\<close>

type_synonym 'v dict = "(path \<times> 'v) list"

fun dict_setitem :: "'v dict \<Rightarrow> path \<Rightarrow> 'v \<Rightarrow> 'v dict" where
  "dict_setitem [] k v = [(k, v)]"
| "dict_setitem ((k', v') # kvs) k v =
     (if k' = k then (k, v) # kvs else (k', v') # dict_setitem kvs k v)"

definition dict_keys :: "'v dict \<Rightarrow> path list" where
  "dict_keys d = map fst d"

definition dict_getitem :: "'v dict \<Rightarrow> path \<Rightarrow> 'v option" where
  "dict_getitem d k = map_of d k"

section \<open>Sort key of a patient directory name\<close>

text \<open>\<^verbatim>\<open>s.split(c)\<close> for a separator of one character: always at least one part.\<close>

fun str_split :: "char \<Rightarrow> string \<Rightarrow> string list" where
  "str_split c [] = [[]]"
| "str_split c (x # xs) =
     (if x = c then [] # str_split c xs
      else (case str_split c xs of
              [] \<Rightarrow> [[x]]
            | w # ws \<Rightarrow> (x # w) # ws))"

text \<open>
  \<^verbatim>\<open>s.zfill(width)\<close>: a string of at least \<open>width\<close> characters is returned as it is;
  a shorter one is filled with zeros on the left, after a leading sign if there is one.
\<close>

definition zfill :: "nat \<Rightarrow> string \<Rightarrow> string" where
  "zfill width s =
     (if width \<le> length s then s
      else (case s of
              [] \<Rightarrow> replicate width CHR ''0''
            | c # cs \<Rightarrow>
                if c = CHR ''+'' \<or> c = CHR ''-''
                then c # replicate (width - length s) CHR ''0'' @ cs
                else replicate (width - length s) CHR ''0'' @ s))"

text \<open>
  \<^verbatim>\<open>_patient_directory_sort_key\<close>. Unpacking the result of \<^verbatim>\<open>split\<close> into two names
  raises \<^verbatim>\<open>ValueError\<close> unless there are exactly two parts.
\<close>

definition patient_directory_sort_key :: "string \<Rightarrow> error + string" where
  "patient_directory_sort_key patient_directory_name =
     (case str_split CHR ''~'' patient_directory_name of
        [prepended_number, patient_id] \<Rightarrow> Inr (patient_id @ ''.'' @ zfill 6 prepended_number)
      | _ \<Rightarrow> Inl ValueError)"

text \<open>The number a string of decimal digits denotes, and what a digit string is.\<close>

definition is_digit :: "char \<Rightarrow> bool" where
  "is_digit c = (CHR ''0'' \<le> c \<and> c \<le> CHR ''9'')"

definition digit_value :: "char \<Rightarrow> nat" where
  "digit_value c = of_char c - of_char CHR ''0''"

definition sequence_number :: "string \<Rightarrow> nat" where
  "sequence_number s = foldl (\<lambda>n c. 10 * n + digit_value c) 0 s"

text \<open>
  The key as the specification words it, for a sequence of digits: the patient id, a dot,
  the sequence filled with zeros on the left up to six characters.
\<close>

definition spec_sort_key :: "string \<Rightarrow> string \<Rightarrow> string" where
  "spec_sort_key patient_id seq =
     patient_id @ ''.'' @ replicate (6 - length seq) CHR ''0'' @ seq"

section \<open>Staleness computation\<close>

text \<open>\<^verbatim>\<open>np.min\<close> of a one-dimensional array: \<^verbatim>\<open>ValueError\<close> on an array of size zero.\<close>

fun np_min :: "real list \<Rightarrow> error + real" where
  "np_min [] = Inl ValueError"
| "np_min (x # xs) = Inr (fold min xs x)"

text \<open>The list comprehension over \<^verbatim>\<open>os.path.getmtime\<close>: the first failure ends it.\<close>

fun modified_times :: "filesystem \<Rightarrow> path list \<Rightarrow> error + real list" where
  "modified_times fs [] = Inr []"
| "modified_times fs (item # items) =
     (case getmtime fs item of
        Inl e \<Rightarrow> Inl e
      | Inr t \<Rightarrow> (case modified_times fs items of
                   Inl e \<Rightarrow> Inl e
                 | Inr ts \<Rightarrow> Inr (t # ts)))"

definition paths_to_check :: "filesystem \<Rightarrow> path \<Rightarrow> path list" where
  "paths_to_check fs current_patient_directory =
     glob_star fs current_patient_directory
     @ glob_star fs (joinpath current_patient_directory ''plan'')"

definition number_of_weeks_ago :: "real \<Rightarrow> real \<Rightarrow> real" where
  "number_of_weeks_ago now t = (now - t) / (60 * 60 * 24 * 7)"

text \<open>The body of the loop of \<^verbatim>\<open>_weeks_since_touched\<close> for one directory.\<close>

definition minimum_number_of_weeks_ago :: "filesystem \<Rightarrow> real \<Rightarrow> path \<Rightarrow> error + real" where
  "minimum_number_of_weeks_ago fs now current_patient_directory =
     (case modified_times fs (paths_to_check fs current_patient_directory) of
        Inl e \<Rightarrow> Inl e
      | Inr ts \<Rightarrow> np_min (map (number_of_weeks_ago now) ts))"

text \<open>
  The loop of \<^verbatim>\<open>_weeks_since_touched\<close>, with the dictionary built so far; an exception
  in one directory leaves the function, and no dictionary is returned. The status line
  and the progress bar only display and are left out.
\<close>

fun weeks_loop :: "filesystem \<Rightarrow> real \<Rightarrow> path list \<Rightarrow> real dict \<Rightarrow> error + real dict" where
  "weeks_loop fs now [] weeks_sinces_touched = Inr weeks_sinces_touched"
| "weeks_loop fs now (current_patient_directory # rest) weeks_sinces_touched =
     (case minimum_number_of_weeks_ago fs now current_patient_directory of
        Inl e \<Rightarrow> Inl e
      | Inr w \<Rightarrow>
          weeks_loop fs now rest (dict_setitem weeks_sinces_touched current_patient_directory w))"

definition weeks_since_touched :: "filesystem \<Rightarrow> real \<Rightarrow> path list \<Rightarrow> error + real dict" where
  "weeks_since_touched fs now patient_directories = weeks_loop fs now patient_directories []"

text \<open>
  Lines 89 to 93 of \<^verbatim>\<open>main\<close>, the action behind the button that calculates the weeks:
  the call of \<^verbatim>\<open>_weeks_since_touched\<close> is not inside a \<^verbatim>\<open>try\<close>, so an exception of
  the call leaves \<^verbatim>\<open>main\<close> and the session state is not assigned. The two fields are the
  keyword arguments of \<^verbatim>\<open>session_state\<close> at line 33.
\<close>

record session_state =
  session_patient_directories :: "path list"
  session_weeks_since_touched :: "real dict"

definition main_calculate ::
  "filesystem \<Rightarrow> real \<Rightarrow> bool \<Rightarrow> session_state \<Rightarrow> error + session_state" where
  "main_calculate fs now determine_weeks_since_touched session =
     (if determine_weeks_since_touched
      then (case weeks_since_touched fs now (session_patient_directories session) of
              Inl e \<Rightarrow> Inl e
            | Inr weeks_sinces_touched \<Rightarrow>
                Inr (session\<lparr>session_weeks_since_touched := weeks_sinces_touched\<rparr>))
      else Inr session)"

section \<open>Archival selection\<close>

text \<open>\<^verbatim>\<open>_determine_directories_to_archive\<close>: the loop over \<^verbatim>\<open>items()\<close>, appending.\<close>

definition determine_directories_to_archive :: "real dict \<Rightarrow> real \<Rightarrow> path list" where
  "determine_directories_to_archive weeks_sinces_touched weeks_to_keep =
     fold (\<lambda>(directory, weeks) directories_to_archive.
             if weeks > weeks_to_keep then directories_to_archive @ [directory]
             else directories_to_archive)
          weeks_sinces_touched []"

text \<open>
  The function is decorated with \<^verbatim>\<open>@st.cache\<close>: a call whose arguments are in the cache
  returns the stored result, any other call runs the function and stores what it returns.
  The cache is the only state the function has between two calls.
\<close>

type_synonym cache = "((real dict \<times> real) \<times> path list) list"

definition cached_determine_directories_to_archive ::
  "cache \<Rightarrow> real dict \<Rightarrow> real \<Rightarrow> path list \<times> cache" where
  "cached_determine_directories_to_archive c weeks_sinces_touched weeks_to_keep =
     (case map_of c (weeks_sinces_touched, weeks_to_keep) of
        Some r \<Rightarrow> (r, c)
      | None \<Rightarrow>
          (let r = determine_directories_to_archive weeks_sinces_touched weeks_to_keep
           in (r, ((weeks_sinces_touched, weeks_to_keep), r) # c)))"

text \<open>The caches that calls of the function build, starting from the empty one.\<close>

inductive cache_reachable :: "cache \<Rightarrow> bool" where
  empty: "cache_reachable []"
| call: "cache_reachable c \<Longrightarrow>
         cache_reachable (snd (cached_determine_directories_to_archive c m t))"

section \<open>Move gate and verification in \<open>main\<close>\<close>

text \<open>What \<^verbatim>\<open>main\<close> writes to the page in the two parts modelled here.\<close>

datatype notice =
    Warning_does_not_exist path
  | Warning_destination_exists path
  | Warning_holding_not_empty path
  | Error_left_behind path
  | Error_not_in_archive path
  | Success_all_moves

definition testing_final_locations :: "path \<Rightarrow> path list \<Rightarrow> path list" where
  "testing_final_locations destination directories_to_archive =
     map (joinpath destination) (map path_name directories_to_archive)"

text \<open>
  Lines 143 to 192 of \<^verbatim>\<open>main\<close>: the state is the flag \<^verbatim>\<open>allow_move_button\<close> and the
  warnings written so far. In both loops the assignment of \<^verbatim>\<open>False\<close> is a statement of
  the loop body, after the \<^verbatim>\<open>if\<close>, not inside it; for the holding directory it is inside
  the \<^verbatim>\<open>if\<close>.
\<close>

definition source_step :: "filesystem \<Rightarrow> path \<Rightarrow> bool \<times> notice list \<Rightarrow> bool \<times> notice list" where
  "source_step fs directory st =
     (False,
      if \<not> path_exists fs directory then snd st @ [Warning_does_not_exist directory]
      else snd st)"

definition destination_step :: "filesystem \<Rightarrow> path \<Rightarrow> bool \<times> notice list \<Rightarrow> bool \<times> notice list" where
  "destination_step fs directory st =
     (False,
      if path_exists fs directory then snd st @ [Warning_destination_exists directory]
      else snd st)"

definition holding_step :: "filesystem \<Rightarrow> path \<Rightarrow> bool \<times> notice list \<Rightarrow> bool \<times> notice list" where
  "holding_step fs holding st =
     (if length (glob_star fs holding) \<noteq> 0
      then (False, snd st @ [Warning_holding_not_empty holding])
      else st)"

definition move_gate :: "filesystem \<Rightarrow> path \<Rightarrow> path \<Rightarrow> path list \<Rightarrow> bool \<times> notice list" where
  "move_gate fs holding destination directories_to_archive =
     holding_step fs holding
       (fold (destination_step fs) (testing_final_locations destination directories_to_archive)
          (fold (source_step fs) directories_to_archive (True, [])))"

definition allow_move_button :: "filesystem \<Rightarrow> path \<Rightarrow> path \<Rightarrow> path list \<Rightarrow> bool" where
  "allow_move_button fs holding destination directories_to_archive =
     fst (move_gate fs holding destination directories_to_archive)"

text \<open>
  Lines 199 to 212, the action behind the button \<^verbatim>\<open>Test moves\<close>: the two lists of
  failures, the errors written, and whether the success notice is written.
\<close>

record test_state =
  directories_left_behind :: "path list"
  directories_not_in_archive :: "path list"
  written :: "notice list"

definition test_step :: "filesystem \<Rightarrow> path \<times> path \<Rightarrow> test_state \<Rightarrow> test_state" where
  "test_step fs pair st =
     (let from_dir = fst pair; to_dir = snd pair;
          st1 = (if path_exists fs from_dir
                 then st\<lparr>directories_left_behind := directories_left_behind st @ [from_dir],
                         written := written st @ [Error_left_behind from_dir]\<rparr>
                 else st)
      in if \<not> path_exists fs to_dir
         then st1\<lparr>directories_not_in_archive := directories_not_in_archive st1 @ [to_dir],
                  written := written st1 @ [Error_not_in_archive to_dir]\<rparr>
         else st1)"

definition test_moves :: "filesystem \<Rightarrow> path \<Rightarrow> path list \<Rightarrow> test_state" where
  "test_moves fs destination directories_to_archive =
     (let st = fold (test_step fs)
                 (zip directories_to_archive
                      (testing_final_locations destination directories_to_archive))
                 \<lparr>directories_left_behind = [], directories_not_in_archive = [], written = []\<rparr>
      in if directories_left_behind st = [] \<and> directories_not_in_archive st = []
         then st\<lparr>written := written st @ [Success_all_moves]\<rparr>
         else st)"

definition reports_success :: "test_state \<Rightarrow> bool" where
  "reports_success st = (Success_all_moves \<in> set (written st))"


text \<open>
  The errors the verification writes for one planned move, in the order of the loop body.
\<close>

definition item_errors :: "filesystem \<Rightarrow> path \<Rightarrow> path \<Rightarrow> notice list" where
  "item_errors fs from_dir to_dir =
     (if path_exists fs from_dir then [Error_left_behind from_dir] else [])
     @ (if \<not> path_exists fs to_dir then [Error_not_in_archive to_dir] else [])"

section \<open>Example file systems\<close>

text \<open>
  One patient directory \<^verbatim>\<open>clinic/005~ABC\<close> seen at time 6048000 (ten weeks after
  time 0): its three entries were modified one, three and ten weeks before, it has no
  \<^verbatim>\<open>plan\<close> subdirectory, the holding directory exists and is empty, and nothing exists
  under the archive.
\<close>

definition example_directory :: path where
  "example_directory = [''clinic'', ''005~ABC'']"

definition example_holding :: path where
  "example_holding = [''clinic'', ''holding'']"

definition example_destination :: path where
  "example_destination = [''archive'']"

definition example_fs :: filesystem where
  "example_fs =
     [[''clinic'', ''005~ABC''] \<mapsto> Dir 5443200 [''demographic.005'', ''beam'', ''dose''],
      [''clinic'', ''005~ABC'', ''demographic.005''] \<mapsto> File 5443200,
      [''clinic'', ''005~ABC'', ''beam''] \<mapsto> File 4233600,
      [''clinic'', ''005~ABC'', ''dose''] \<mapsto> File 0,
      [''clinic'', ''holding''] \<mapsto> Dir 0 []]"

definition example_mtime :: "path \<Rightarrow> real" where
  "example_mtime p = (case example_fs p of None \<Rightarrow> 0 | Some n \<Rightarrow> st_mtime n)"

text \<open>The same directory with one file whose modification time is a week ahead of time 0.\<close>

definition future_fs :: filesystem where
  "future_fs =
     [[''clinic'', ''005~ABC''] \<mapsto> Dir 0 [''demographic.005''],
      [''clinic'', ''005~ABC'', ''demographic.005''] \<mapsto> File 604800]"

text \<open>
  The first file system with a second patient directory \<^verbatim>\<open>clinic/006~DEF\<close> that has no
  entry, and the session state in which both directories have been found.
\<close>

definition empty_directory :: path where
  "empty_directory = [''clinic'', ''006~DEF'']"

definition mixed_fs :: filesystem where
  "mixed_fs = example_fs([''clinic'', ''006~DEF''] \<mapsto> Dir 0 [])"

definition mixed_session :: session_state where
  "mixed_session =
     \<lparr>session_patient_directories = [example_directory, empty_directory],
      session_weeks_since_touched = []\<rparr>"

text \<open>After the move: the directory is gone from the clinic and present in the archive.\<close>

definition moved_fs :: filesystem where
  "moved_fs = [[''archive'', ''005~ABC''] \<mapsto> Dir 5443200 [''demographic.005'']]"

text \<open>A staleness dictionary with three directories.\<close>

definition example_weeks :: "real dict" where
  "example_weeks = [([''a''], 3), ([''b''], 1), ([''c''], 5)]"

section \<open>Properties of the sort key\<close>

lemma length_str_split: "length (str_split c s) = Suc (count_list s c)"
  by (induction s) (auto split: list.splits)

lemma str_split_no_sep: "c \<notin> set s \<Longrightarrow> str_split c s = [s]"
  by (induction s) auto

lemma str_split_append: "c \<notin> set a \<Longrightarrow> str_split c (a @ c # b) = a # str_split c b"
  by (induction a) auto

lemma sort_key_succeeds_iff:
  "(\<exists>k. patient_directory_sort_key n = Inr k) \<longleftrightarrow> count_list n CHR ''~'' = 1"
proof -
  have "(\<exists>k. patient_directory_sort_key n = Inr k) \<longleftrightarrow> length (str_split CHR ''~'' n) = 2"
    by (auto simp: patient_directory_sort_key_def split: list.splits)
  then show ?thesis by (simp add: length_str_split)
qed

lemma sort_key_error: "patient_directory_sort_key n = Inl e \<Longrightarrow> e = ValueError"
  by (auto simp: patient_directory_sort_key_def split: list.splits)

lemma append_less_cancel: "(xs @ ys < xs @ zs) \<longleftrightarrow> (ys < zs)" for xs :: string
  by (induction xs) auto

lemma foldl_sequence_number:
  "foldl (\<lambda>n c. 10 * n + digit_value c) a s = a * 10 ^ length s + sequence_number s"
  unfolding sequence_number_def
proof (induction s arbitrary: a)
  case Nil
  then show ?case by simp
next
  case (Cons x xs)
  show ?case
    apply simp
    apply (subst Cons.IH)
    apply (subst Cons.IH [of "digit_value x"])
    apply (simp add: algebra_simps)
    done
qed

lemma sequence_number_Cons:
  "sequence_number (x # xs) = digit_value x * 10 ^ length xs + sequence_number xs"
  using foldl_sequence_number [of "digit_value x" xs] by (simp add: sequence_number_def)

lemma sequence_number_bound:
  "\<forall>c\<in>set s. is_digit c \<Longrightarrow> sequence_number s < 10 ^ length s"
proof (induction s)
  case Nil
  then show ?case by (simp add: sequence_number_def)
next
  case (Cons x xs)
  have "digit_value x \<le> 9"
    using Cons.prems by (auto simp: is_digit_def digit_value_def less_eq_char_def)
  then have "digit_value x * 10 ^ length xs \<le> 9 * 10 ^ length xs" by simp
  moreover have "sequence_number xs < 10 ^ length xs" using Cons by simp
  ultimately have "digit_value x * 10 ^ length xs + sequence_number xs < 10 * 10 ^ length xs"
    by linarith
  then show ?case by (simp add: sequence_number_Cons)
qed

lemma digit_less:
  "is_digit x \<Longrightarrow> is_digit y \<Longrightarrow> x < y \<longleftrightarrow> digit_value x < digit_value y"
  by (auto simp: is_digit_def digit_value_def less_eq_char_def less_char_def)

lemma digit_eq:
  "is_digit x \<Longrightarrow> is_digit y \<Longrightarrow> x = y \<longleftrightarrow> digit_value x = digit_value y"
proof
  assume "is_digit x" "is_digit y" "digit_value x = digit_value y"
  then have "(of_char x :: nat) = of_char y"
    by (simp add: is_digit_def digit_value_def less_eq_char_def del: of_char_eq_iff) linarith
  then show "x = y" by simp
qed simp

lemma positional_less:
  fixes a b x y K :: nat
  assumes "a < K" "b < K"
  shows "x * K + a < y * K + b \<longleftrightarrow> x < y \<or> (x = y \<and> a < b)"
proof (cases "x < y")
  case True
  then have "Suc x \<le> y" by simp
  then have "Suc x * K \<le> y * K" by (rule mult_le_mono1)
  then show ?thesis using assms True by simp
next
  case False
  show ?thesis
  proof (cases "x = y")
    case True
    then show ?thesis by simp
  next
    case neq: False
    with False have "Suc y \<le> x" by simp
    then have "Suc y * K \<le> x * K" by (rule mult_le_mono1)
    then show ?thesis using assms False neq by simp
  qed
qed

text \<open>Digit strings of one length compare as the numbers they denote.\<close>

lemma digits_less:
  "length a = length b \<Longrightarrow> \<forall>c\<in>set a. is_digit c \<Longrightarrow> \<forall>c\<in>set b. is_digit c \<Longrightarrow>
   a < b \<longleftrightarrow> sequence_number a < sequence_number b"
proof (induction a b rule: list_induct2)
  case Nil
  then show ?case by simp
next
  case (Cons x xs y ys)
  have bx: "sequence_number xs < 10 ^ length xs"
    using Cons.prems by (simp add: sequence_number_bound)
  have bnd: "sequence_number ys < 10 ^ length xs"
    using Cons.prems Cons.hyps sequence_number_bound [of ys] by simp
  have IH: "xs < ys \<longleftrightarrow> sequence_number xs < sequence_number ys" using Cons by simp
  have dx: "is_digit x" "is_digit y" using Cons.prems by simp_all
  show ?case
    using positional_less [OF bx bnd, of "digit_value x" "digit_value y"] Cons.hyps
    by (simp add: sequence_number_Cons IH digit_less [OF dx] digit_eq [OF dx])
qed

lemma sequence_number_zeros:
  "sequence_number (replicate k CHR ''0'' @ s) = sequence_number s"
  by (induction k) (simp_all add: sequence_number_Cons digit_value_def)

lemma zfill_digits:
  "\<forall>c\<in>set s. is_digit c \<Longrightarrow> zfill w s = replicate (w - length s) CHR ''0'' @ s"
  by (cases s) (auto simp: zfill_def is_digit_def less_eq_char_def)

lemma sort_key_format:
  "CHR ''~'' \<notin> set seq \<Longrightarrow> CHR ''~'' \<notin> set pid \<Longrightarrow>
   patient_directory_sort_key (seq @ CHR ''~'' # pid) = Inr (pid @ CHR ''.'' # zfill 6 seq)"
  by (simp add: patient_directory_sort_key_def str_split_append str_split_no_sep)

lemma digit_not_tilde: "is_digit c \<Longrightarrow> c \<noteq> CHR ''~''"
  by (auto simp: is_digit_def less_eq_char_def)

lemma sort_key_digits:
  assumes "\<forall>c\<in>set seq. is_digit c" and "CHR ''~'' \<notin> set pid"
  shows "patient_directory_sort_key (seq @ ''~'' @ pid) = Inr (spec_sort_key pid seq)"
proof -
  have "CHR ''~'' \<notin> set seq" using assms(1) digit_not_tilde by blast
  then show ?thesis
    using assms by (simp add: sort_key_format zfill_digits spec_sort_key_def)
qed

lemma spec_sort_key_less:
  assumes "\<forall>c\<in>set s1. is_digit c" and "\<forall>c\<in>set s2. is_digit c"
    and "length s1 \<le> 6" and "length s2 \<le> 6"
  shows "spec_sort_key pid s1 < spec_sort_key pid s2
         \<longleftrightarrow> sequence_number s1 < sequence_number s2"
proof -
  let ?p1 = "replicate (6 - length s1) CHR ''0'' @ s1"
  let ?p2 = "replicate (6 - length s2) CHR ''0'' @ s2"
  have len: "length ?p1 = length ?p2" using assms(3,4) by simp
  have d0: "is_digit CHR ''0''" by (simp add: is_digit_def)
  have d1: "\<forall>c\<in>set ?p1. is_digit c" using assms(1) d0 by auto
  have d2: "\<forall>c\<in>set ?p2. is_digit c" using assms(2) d0 by auto
  have "spec_sort_key pid s1 < spec_sort_key pid s2 \<longleftrightarrow> ?p1 < ?p2"
    using append_less_cancel [of "pid @ ''.''" ?p1 ?p2] by (simp add: spec_sort_key_def)
  also have "\<dots> \<longleftrightarrow> sequence_number ?p1 < sequence_number ?p2"
    by (rule digits_less [OF len d1 d2])
  finally show ?thesis by (simp add: sequence_number_zeros)
qed

text \<open>
  C6, as stated: the key of a well-formed name is the patient id, a dot and the sequence
  padded to six digits, and the keys of two names of one patient are ordered as their
  sequences. The ordering fails once a sequence has more than six digits: the name with
  sequence 1000000 gets a smaller key than the name with sequence 999999.
\<close>

theorem sort_key_order_counterexample:
  "patient_directory_sort_key ''1000000~P1'' = Inr ''P1.1000000''
   \<and> patient_directory_sort_key ''999999~P1'' = Inr ''P1.999999''
   \<and> (''P1.1000000'' :: string) < ''P1.999999''
   \<and> sequence_number ''999999'' < sequence_number ''1000000''"
  by (simp add: patient_directory_sort_key_def zfill_def sequence_number_def digit_value_def)

text \<open>
  C6, amended: for a name whose sequence is a string of digits and whose patient id has
  no separator, the key is the patient id, a dot and the sequence filled with zeros up to
  six characters; and for two such names of one patient whose sequences have at most six
  digits, the first key is below the second exactly when the first sequence number is
  below the second.
\<close>

theorem sort_key_orders_by_sequence:
  assumes "\<forall>c\<in>set s1. is_digit c" and "\<forall>c\<in>set s2. is_digit c"
    and "CHR ''~'' \<notin> set pid"
  shows "patient_directory_sort_key (s1 @ ''~'' @ pid) = Inr (spec_sort_key pid s1)
         \<and> patient_directory_sort_key (s2 @ ''~'' @ pid) = Inr (spec_sort_key pid s2)
         \<and> (length s1 \<le> 6 \<and> length s2 \<le> 6 \<longrightarrow>
              (spec_sort_key pid s1 < spec_sort_key pid s2
               \<longleftrightarrow> sequence_number s1 < sequence_number s2))"
proof (intro conjI impI)
  show "patient_directory_sort_key (s1 @ ''~'' @ pid) = Inr (spec_sort_key pid s1)"
    using assms(1,3) by (rule sort_key_digits)
  show "patient_directory_sort_key (s2 @ ''~'' @ pid) = Inr (spec_sort_key pid s2)"
    using assms(2,3) by (rule sort_key_digits)
  assume "length s1 \<le> 6 \<and> length s2 \<le> 6"
  then show "spec_sort_key pid s1 < spec_sort_key pid s2
             \<longleftrightarrow> sequence_number s1 < sequence_number s2"
    using assms(1,2) by (simp add: spec_sort_key_less)
qed

theorem sort_key_orders_by_sequence_witness:
  "patient_directory_sort_key ''002~P1'' = Inr ''P1.000002''
   \<and> patient_directory_sort_key ''003~P1'' = Inr ''P1.000003''
   \<and> (''P1.000002'' :: string) < ''P1.000003''
   \<and> \<not> (''P1.000003'' :: string) < ''P1.000002''
   \<and> sequence_number ''002'' < sequence_number ''003''"
proof -
  have d2: "\<forall>c\<in>set ''002''. is_digit c" by (simp add: is_digit_def)
  have d3: "\<forall>c\<in>set ''003''. is_digit c" by (simp add: is_digit_def)
  have p: "CHR ''~'' \<notin> set ''P1''" by simp
  have pad: "spec_sort_key ''P1'' ''002'' = ''P1.000002''"
    "spec_sort_key ''P1'' ''003'' = ''P1.000003''"
    by (simp_all add: spec_sort_key_def eval_nat_numeral)
  have seq: "sequence_number ''002'' < sequence_number ''003''"
    by (simp add: sequence_number_def digit_value_def)
  show ?thesis
    using sort_key_orders_by_sequence [OF d2 d3 p] sort_key_orders_by_sequence [OF d3 d2 p]
      seq
    by (simp add: pad)
qed

text \<open>
  C7: the sort key is computed for every name with exactly one \<open>~\<close>, and raises
  \<^verbatim>\<open>ValueError\<close> (the unpacking of the parts fails) for every other name.
\<close>

theorem sort_key_fails_unless_one_separator:
  "(count_list name CHR ''~'' = 1 \<longrightarrow> (\<exists>k. patient_directory_sort_key name = Inr k))
   \<and> (count_list name CHR ''~'' \<noteq> 1 \<longrightarrow> patient_directory_sort_key name = Inl ValueError)"
proof (intro conjI impI)
  assume "count_list name CHR ''~'' = 1"
  then show "\<exists>k. patient_directory_sort_key name = Inr k"
    by (simp add: sort_key_succeeds_iff)
next
  assume "count_list name CHR ''~'' \<noteq> 1"
  then have "\<nexists>k. patient_directory_sort_key name = Inr k"
    by (simp add: sort_key_succeeds_iff)
  then obtain e where "patient_directory_sort_key name = Inl e"
    by (cases "patient_directory_sort_key name") auto
  then show "patient_directory_sort_key name = Inl ValueError"
    using sort_key_error by blast
qed

theorem sort_key_fails_unless_one_separator_witness:
  "count_list ''003~P1'' CHR ''~'' = 1
   \<and> (\<exists>k. patient_directory_sort_key ''003~P1'' = Inr k)
   \<and> count_list ''003P1'' CHR ''~'' \<noteq> 1
   \<and> patient_directory_sort_key ''003P1'' = Inl ValueError
   \<and> count_list ''003~P1~x'' CHR ''~'' \<noteq> 1
   \<and> patient_directory_sort_key ''003~P1~x'' = Inl ValueError"
  using sort_key_fails_unless_one_separator [of "''003~P1''"]
    sort_key_fails_unless_one_separator [of "''003P1''"]
    sort_key_fails_unless_one_separator [of "''003~P1~x''"]
  by simp

section \<open>Properties of the staleness computation\<close>

lemma map_of_dict_setitem: "map_of (dict_setitem d k v) = (map_of d)(k \<mapsto> v)"
  by (induction d k v rule: dict_setitem.induct) (auto simp: fun_eq_iff)

lemma keys_dict_setitem: "fst ` set (dict_setitem d k v) = insert k (fst ` set d)"
  by (induction d k v rule: dict_setitem.induct) auto

lemma distinct_dict_setitem:
  "distinct (map fst d) \<Longrightarrow> distinct (map fst (dict_setitem d k v))"
  by (induction d k v rule: dict_setitem.induct) (auto simp: keys_dict_setitem)

lemma modified_times_Inr:
  "\<forall>p\<in>set ps. getmtime fs p = Inr (mt p) \<Longrightarrow> modified_times fs ps = Inr (map mt ps)"
  by (induction ps) auto

lemma modified_times_mem:
  "modified_times fs ps = Inr ts \<Longrightarrow> t \<in> set ts \<Longrightarrow> \<exists>p\<in>set ps. getmtime fs p = Inr t"
  by (induction ps arbitrary: ts) (auto split: sum.splits)

lemma np_min_Min: "xs \<noteq> [] \<Longrightarrow> np_min xs = Inr (Min (set xs))"
proof (cases xs)
  case (Cons x ys)
  have "fold min ys x = Min (set (x # ys))" by (rule Min.set_eq_fold [symmetric])
  then show ?thesis using Cons by (simp only: np_min.simps)
qed simp

lemma np_min_Inr_D: "np_min xs = Inr w \<Longrightarrow> xs \<noteq> [] \<and> w = Min (set xs)"
  using np_min_Min [of xs] by (cases xs) auto

lemma minimum_empty:
  "paths_to_check fs d = [] \<Longrightarrow> minimum_number_of_weeks_ago fs now d = Inl ValueError"
  by (simp add: minimum_number_of_weeks_ago_def)

lemma minimum_Min:
  assumes "paths_to_check fs d \<noteq> []"
    and "\<forall>p\<in>set (paths_to_check fs d). getmtime fs p = Inr (mt p)"
  shows "minimum_number_of_weeks_ago fs now d
       = Inr (Min ((\<lambda>p. number_of_weeks_ago now (mt p)) ` set (paths_to_check fs d)))"
proof -
  let ?ps = "paths_to_check fs d"
  have "modified_times fs ?ps = Inr (map mt ?ps)"
    using assms(2) by (rule modified_times_Inr)
  moreover have "np_min (map (number_of_weeks_ago now) (map mt ?ps))
      = Inr (Min (set (map (number_of_weeks_ago now) (map mt ?ps))))"
    using assms(1) by (intro np_min_Min) simp
  moreover have "set (map (number_of_weeks_ago now) (map mt ?ps))
      = (\<lambda>p. number_of_weeks_ago now (mt p)) ` set ?ps"
    by auto
  ultimately show ?thesis
    by (simp add: minimum_number_of_weeks_ago_def)
qed

text \<open>The minimum is the age of one of the gathered paths.\<close>

lemma minimum_attained:
  assumes "minimum_number_of_weeks_ago fs now d = Inr w"
  shows "\<exists>p\<in>set (paths_to_check fs d). \<exists>t. getmtime fs p = Inr t \<and> w = number_of_weeks_ago now t"
proof -
  from assms obtain ts where ts: "modified_times fs (paths_to_check fs d) = Inr ts"
    and w: "np_min (map (number_of_weeks_ago now) ts) = Inr w"
    by (auto simp: minimum_number_of_weeks_ago_def split: sum.splits)
  from np_min_Inr_D [OF w] have ne: "ts \<noteq> []" and "w = Min (number_of_weeks_ago now ` set ts)"
    by simp_all
  then have "w \<in> number_of_weeks_ago now ` set ts"
    using Min_in [of "number_of_weeks_ago now ` set ts"] by simp
  then obtain t where t: "t \<in> set ts" "w = number_of_weeks_ago now t" by auto
  from modified_times_mem [OF ts t(1)]
  obtain p where "p \<in> set (paths_to_check fs d)" "getmtime fs p = Inr t"
    by blast
  with t(2) show ?thesis by blast
qed

text \<open>What a run of the loop that returns has put into the dictionary.\<close>

lemma weeks_loop_Inr:
  "weeks_loop fs now ds acc = Inr m \<Longrightarrow>
     fst ` set m = set ds \<union> fst ` set acc
   \<and> (distinct (map fst acc) \<longrightarrow> distinct (map fst m))
   \<and> (\<forall>d\<in>set ds. \<exists>w. minimum_number_of_weeks_ago fs now d = Inr w \<and> map_of m d = Some w)
   \<and> (\<forall>k. k \<notin> set ds \<longrightarrow> map_of m k = map_of acc k)"
proof (induction ds arbitrary: acc)
  case Nil
  then show ?case by simp
next
  case (Cons d ds)
  from Cons.prems obtain w where w: "minimum_number_of_weeks_ago fs now d = Inr w"
    and loop: "weeks_loop fs now ds (dict_setitem acc d w) = Inr m"
    by (auto split: sum.splits)
  note IH = Cons.IH [OF loop]
  have "map_of m d = Some w"
  proof (cases "d \<in> set ds")
    case True
    with IH w show ?thesis by auto
  next
    case False
    with IH show ?thesis by (simp add: map_of_dict_setitem)
  qed
  moreover have "fst ` set m = set (d # ds) \<union> fst ` set acc"
    using IH by (simp add: keys_dict_setitem)
  moreover have "distinct (map fst acc) \<longrightarrow> distinct (map fst m)"
    using IH by (simp add: distinct_dict_setitem)
  moreover have "\<forall>k. k \<notin> set (d # ds) \<longrightarrow> map_of m k = map_of acc k"
    using IH by (simp add: map_of_dict_setitem)
  moreover have
    "\<forall>x\<in>set ds. \<exists>w. minimum_number_of_weeks_ago fs now x = Inr w \<and> map_of m x = Some w"
    using IH by blast
  ultimately show ?case using w by simp
qed

lemma weeks_loop_succeeds:
  "\<forall>d\<in>set ds. \<exists>w. minimum_number_of_weeks_ago fs now d = Inr w \<Longrightarrow>
   \<exists>m. weeks_loop fs now ds acc = Inr m"
  by (induction ds arbitrary: acc) auto

lemma weeks_loop_fails:
  "d \<in> set ds \<Longrightarrow> minimum_number_of_weeks_ago fs now d = Inl e \<Longrightarrow>
   \<exists>e'. weeks_loop fs now ds acc = Inl e'"
  by (induction ds arbitrary: acc) (auto split: sum.splits)

lemma weeks_loop_first_failure:
  "\<forall>p\<in>set pre. \<exists>w. minimum_number_of_weeks_ago fs now p = Inr w \<Longrightarrow>
   minimum_number_of_weeks_ago fs now d = Inl e \<Longrightarrow>
   weeks_loop fs now (pre @ d # post) acc = Inl e"
  by (induction pre arbitrary: acc) auto

text \<open>
  C3, as stated: for a patient directory without gathered paths the staleness computation
  fails explicitly for that directory, with an error for missing data, rather than
  crashing. The function has no check for the empty case: the exception is the one
  \<^verbatim>\<open>np.min\<close> raises on an array of size zero, nothing catches it in
  \<^verbatim>\<open>_weeks_since_touched\<close> or in \<^verbatim>\<open>main\<close>, and it ends the computation for every
  directory. With a directory of staleness 1 followed by a directory without entries, no
  dictionary is returned, the staleness of the first directory is lost with it, and the
  run of \<^verbatim>\<open>main\<close> ends in the exception.
\<close>

theorem empty_directory_failure_counterexample:
  "minimum_number_of_weeks_ago mixed_fs 6048000 example_directory = Inr 1
   \<and> paths_to_check mixed_fs empty_directory = []
   \<and> weeks_since_touched mixed_fs 6048000 [example_directory, empty_directory]
       = Inl ValueError
   \<and> main_calculate mixed_fs 6048000 True mixed_session = Inl ValueError"
  by (simp add: mixed_fs_def mixed_session_def example_fs_def example_directory_def
      empty_directory_def main_calculate_def weeks_since_touched_def
      minimum_number_of_weeks_ago_def paths_to_check_def glob_star_def joinpath_def
      getmtime_def number_of_weeks_ago_def)

text \<open>
  C3, amended: a patient directory without gathered paths (no entry of its own and none
  under \<^verbatim>\<open>plan\<close>) never gets a staleness value, a sentinel or any other: for that
  directory \<^verbatim>\<open>np.min\<close> raises \<^verbatim>\<open>ValueError\<close> on the empty array, and this exception
  ends the whole computation. A computation over a collection that holds the directory
  returns no dictionary, for any directory; when the directories before it are computed,
  the error of the computation is this \<^verbatim>\<open>ValueError\<close>; and the run of \<^verbatim>\<open>main\<close> that
  calculates the weeks ends in the exception, without a new session state.
\<close>

theorem empty_directory_raises_ValueError:
  assumes "paths_to_check fs d = []"
  shows "minimum_number_of_weeks_ago fs now d = Inl ValueError
       \<and> (d \<in> set dirs \<longrightarrow> (\<exists>e. weeks_since_touched fs now dirs = Inl e))
       \<and> ((\<forall>p\<in>set pre. \<exists>w. minimum_number_of_weeks_ago fs now p = Inr w)
            \<longrightarrow> weeks_since_touched fs now (pre @ d # post) = Inl ValueError)
       \<and> (d \<in> set (session_patient_directories session)
            \<longrightarrow> (\<exists>e. main_calculate fs now True session = Inl e))"
proof -
  have m: "minimum_number_of_weeks_ago fs now d = Inl ValueError"
    using assms by (rule minimum_empty)
  have loop: "\<exists>e. weeks_since_touched fs now ds = Inl e" if "d \<in> set ds" for ds
    using weeks_loop_fails [OF that m, of "[]"] by (simp add: weeks_since_touched_def)
  have first: "weeks_since_touched fs now (pre @ d # post) = Inl ValueError"
    if "\<forall>p\<in>set pre. \<exists>w. minimum_number_of_weeks_ago fs now p = Inr w"
    using weeks_loop_first_failure [OF that m, of post "[]"]
    by (simp add: weeks_since_touched_def)
  have run: "\<exists>e. main_calculate fs now True session = Inl e"
    if "d \<in> set (session_patient_directories session)"
    using loop [OF that] by (auto simp: main_calculate_def)
  show ?thesis using m loop first run by blast
qed

theorem empty_directory_raises_ValueError_witness:
  "paths_to_check mixed_fs empty_directory = []
   \<and> minimum_number_of_weeks_ago mixed_fs 6048000 example_directory = Inr 1
   \<and> minimum_number_of_weeks_ago mixed_fs 6048000 empty_directory = Inl ValueError
   \<and> weeks_since_touched mixed_fs 6048000 ([example_directory] @ empty_directory # [])
       = Inl ValueError
   \<and> (\<exists>e. main_calculate mixed_fs 6048000 True mixed_session = Inl e)"
proof -
  have e: "paths_to_check mixed_fs empty_directory = []"
    by (simp add: paths_to_check_def glob_star_def joinpath_def mixed_fs_def example_fs_def
        empty_directory_def)
  have g: "minimum_number_of_weeks_ago mixed_fs 6048000 example_directory = Inr 1"
    by (simp add: mixed_fs_def example_fs_def example_directory_def
        minimum_number_of_weeks_ago_def paths_to_check_def glob_star_def joinpath_def
        getmtime_def number_of_weeks_ago_def)
  have pre: "\<forall>p\<in>set [example_directory].
               \<exists>w. minimum_number_of_weeks_ago mixed_fs 6048000 p = Inr w"
    using g by simp
  have mem: "empty_directory \<in> set (session_patient_directories mixed_session)"
    by (simp add: mixed_session_def)
  show ?thesis
    using empty_directory_raises_ValueError [OF e, of 6048000 "[example_directory, empty_directory]"
        "[example_directory]" "[]" mixed_session] e g pre mem
    by simp
qed

text \<open>
  C4: for a patient directory with at least one gathered path, each with a readable
  modification time \<open>mtime p\<close>, the gathered paths are the entries of the directory
  followed by the entries of its \<^verbatim>\<open>plan\<close> subdirectory; an absent \<^verbatim>\<open>plan\<close> contributes
  no path and no failure; the staleness computed for the directory, and recorded for it
  in the dictionary the computation returns, is the minimum over the gathered paths of
  \<open>(now - mtime p) / (7 * 86400)\<close>. The witness is the directory with entries modified
  one, three and ten weeks ago and no \<^verbatim>\<open>plan\<close>: its staleness is 1.
\<close>

theorem staleness_is_minimum_weeks:
  assumes "paths_to_check fs d \<noteq> []"
    and "\<forall>p\<in>set (paths_to_check fs d). getmtime fs p = Inr (mtime p)"
  shows "paths_to_check fs d = glob_star fs d @ glob_star fs (joinpath d ''plan'')
       \<and> (\<not> path_exists fs (joinpath d ''plan'') \<longrightarrow> paths_to_check fs d = glob_star fs d)
       \<and> minimum_number_of_weeks_ago fs now d
           = Inr (Min ((\<lambda>p. (now - mtime p) / (7 * 86400)) ` set (paths_to_check fs d)))
       \<and> (d \<in> set dirs \<longrightarrow> weeks_since_touched fs now dirs = Inr m \<longrightarrow>
            dict_getitem m d
              = Some (Min ((\<lambda>p. (now - mtime p) / (7 * 86400)) ` set (paths_to_check fs d))))"
proof (intro conjI impI)
  show "paths_to_check fs d = glob_star fs d @ glob_star fs (joinpath d ''plan'')"
    by (simp add: paths_to_check_def)
  show "paths_to_check fs d = glob_star fs d" if "\<not> path_exists fs (joinpath d ''plan'')"
    using that by (simp add: paths_to_check_def glob_star_def path_exists_def)
  have w: "number_of_weeks_ago now t = (now - t) / (7 * 86400)" for t
    by (simp add: number_of_weeks_ago_def)
  show min: "minimum_number_of_weeks_ago fs now d
           = Inr (Min ((\<lambda>p. (now - mtime p) / (7 * 86400)) ` set (paths_to_check fs d)))"
    using minimum_Min [OF assms, of now] by (simp only: w)
  assume d: "d \<in> set dirs" and "weeks_since_touched fs now dirs = Inr m"
  then have "weeks_loop fs now dirs [] = Inr m"
    by (simp add: weeks_since_touched_def)
  from weeks_loop_Inr [OF this] d
  have "\<exists>w. minimum_number_of_weeks_ago fs now d = Inr w \<and> map_of m d = Some w"
    by blast
  then show "dict_getitem m d
      = Some (Min ((\<lambda>p. (now - mtime p) / (7 * 86400)) ` set (paths_to_check fs d)))"
    using min by (auto simp: dict_getitem_def)
qed

theorem staleness_is_minimum_weeks_witness:
  "paths_to_check example_fs example_directory \<noteq> []
   \<and> \<not> path_exists example_fs (joinpath example_directory ''plan'')
   \<and> minimum_number_of_weeks_ago example_fs 6048000 example_directory = Inr 1
   \<and> weeks_since_touched example_fs 6048000 [example_directory] = Inr [(example_directory, 1)]
   \<and> dict_getitem [(example_directory, 1 :: real)] example_directory = Some 1"
proof -
  have ps: "paths_to_check example_fs example_directory =
     [[''clinic'', ''005~ABC'', ''demographic.005''], [''clinic'', ''005~ABC'', ''beam''],
      [''clinic'', ''005~ABC'', ''dose'']]"
    by (simp add: example_fs_def example_directory_def paths_to_check_def glob_star_def
        joinpath_def)
  have ne: "paths_to_check example_fs example_directory \<noteq> []" by (simp add: ps)
  have mt: "\<forall>p\<in>set (paths_to_check example_fs example_directory).
              getmtime example_fs p = Inr (example_mtime p)"
    unfolding ps by (simp add: getmtime_def example_mtime_def example_fs_def)
  have np: "\<not> path_exists example_fs (joinpath example_directory ''plan'')"
    by (simp add: path_exists_def example_fs_def example_directory_def joinpath_def)
  have val: "Min ((\<lambda>p. (6048000 - example_mtime p) / (7 * 86400))
                    ` set (paths_to_check example_fs example_directory)) = 1"
    unfolding ps by (simp add: example_mtime_def example_fs_def)
  note T = staleness_is_minimum_weeks [OF ne mt, of 6048000 "[example_directory]"
      "[(example_directory, 1)]"]
  from T have min1: "minimum_number_of_weeks_ago example_fs 6048000 example_directory = Inr 1"
    unfolding val by blast
  have loop: "weeks_since_touched example_fs 6048000 [example_directory]
      = Inr [(example_directory, 1)]"
    by (simp add: weeks_since_touched_def min1)
  from T loop have get: "dict_getitem [(example_directory, 1 :: real)] example_directory = Some 1"
    unfolding val by simp
  from ne np min1 loop get show ?thesis by blast
qed

text \<open>
  C5, as stated: every value of the staleness dictionary is non-negative, whatever the
  modification times. A file modified after \<open>now\<close> (a clock set back, a time stamp set by
  hand) gives a negative value: with one file a week ahead, the directory is recorded
  with staleness -1.
\<close>

theorem staleness_negative_counterexample:
  "weeks_since_touched future_fs 0 [example_directory] = Inr [(example_directory, - 1)]"
  by (simp add: future_fs_def example_directory_def weeks_since_touched_def
      minimum_number_of_weeks_ago_def paths_to_check_def glob_star_def joinpath_def
      getmtime_def number_of_weeks_ago_def)

text \<open>
  C5, amended: when no gathered path of any input directory has a modification time
  later than \<open>now\<close>, every value of the staleness dictionary that the computation returns
  is a non-negative real number.
\<close>

theorem staleness_nonnegative:
  assumes "weeks_since_touched fs now dirs = Inr m"
    and "\<forall>d\<in>set dirs. \<forall>p\<in>set (paths_to_check fs d). \<forall>t. getmtime fs p = Inr t \<longrightarrow> t \<le> now"
  shows "\<forall>(d, w)\<in>set m. 0 \<le> w"
proof (clarify)
  fix d w assume dw: "(d, w) \<in> set m"
  from assms(1) have loop: "weeks_loop fs now dirs [] = Inr m"
    by (simp add: weeks_since_touched_def)
  note L = weeks_loop_Inr [OF loop]
  from L have dist: "distinct (map fst m)" by simp
  from L dw have d: "d \<in> set dirs" by force
  with L obtain w' where w': "minimum_number_of_weeks_ago fs now d = Inr w'" "map_of m d = Some w'"
    by blast
  from dist dw have "map_of m d = Some w" by simp
  with w' have "minimum_number_of_weeks_ago fs now d = Inr w" by simp
  from minimum_attained [OF this] obtain p t
    where p: "p \<in> set (paths_to_check fs d)" "getmtime fs p = Inr t"
      and w: "w = number_of_weeks_ago now t" by blast
  from assms(2) d p have "t \<le> now" by blast
  then show "0 \<le> w" by (simp add: w number_of_weeks_ago_def)
qed

theorem staleness_nonnegative_witness:
  "weeks_since_touched example_fs 6048000 [example_directory] = Inr [(example_directory, 1)]
   \<and> list_all (\<lambda>(d, w). 0 \<le> w) [(example_directory, 1 :: real)]"
proof -
  have r: "weeks_since_touched example_fs 6048000 [example_directory]
      = Inr [(example_directory, 1)]"
    by (simp add: example_fs_def example_directory_def weeks_since_touched_def
      minimum_number_of_weeks_ago_def paths_to_check_def glob_star_def joinpath_def
      getmtime_def number_of_weeks_ago_def)
  have h: "\<forall>d\<in>set [example_directory]. \<forall>p\<in>set (paths_to_check example_fs d).
             \<forall>t. getmtime example_fs p = Inr t \<longrightarrow> t \<le> 6048000"
    by (simp add: example_fs_def example_directory_def paths_to_check_def glob_star_def
        joinpath_def getmtime_def)
  show ?thesis
    using staleness_nonnegative [OF r h] r by simp
qed

text \<open>
  C10: the dictionary that the staleness computation returns has exactly the input
  directories as its keys, each once; and the computation does return a dictionary when
  every input directory has at least one gathered path and every gathered path exists.
\<close>

theorem staleness_mapping_keys:
  "(weeks_since_touched fs now dirs = Inr m \<longrightarrow>
      set (dict_keys m) = set dirs \<and> distinct (dict_keys m))
   \<and> ((\<forall>d\<in>set dirs. paths_to_check fs d \<noteq> []
                       \<and> (\<forall>p\<in>set (paths_to_check fs d). path_exists fs p))
       \<longrightarrow> (\<exists>m'. weeks_since_touched fs now dirs = Inr m'
                 \<and> set (dict_keys m') = set dirs \<and> distinct (dict_keys m')))"
proof -
  have keys: "set (dict_keys m) = set dirs \<and> distinct (dict_keys m)"
    if "weeks_since_touched fs now dirs = Inr m" for m
    using weeks_loop_Inr [of fs now dirs "[]" m] that
    by (simp add: weeks_since_touched_def dict_keys_def)
  have ex: "\<exists>m'. weeks_since_touched fs now dirs = Inr m'"
    if h: "\<forall>d\<in>set dirs. paths_to_check fs d \<noteq> []
                       \<and> (\<forall>p\<in>set (paths_to_check fs d). path_exists fs p)"
  proof -
    have "\<exists>w. minimum_number_of_weeks_ago fs now d = Inr w" if d: "d \<in> set dirs" for d
    proof -
      have mt: "\<forall>p\<in>set (paths_to_check fs d).
              getmtime fs p = Inr (case fs p of None \<Rightarrow> 0 | Some n \<Rightarrow> st_mtime n)"
        using h d by (auto simp: getmtime_def path_exists_def split: option.splits)
      have ne: "paths_to_check fs d \<noteq> []" using h d by simp
      from minimum_Min [OF ne mt] show ?thesis by blast
    qed
    then show ?thesis
      unfolding weeks_since_touched_def by (intro weeks_loop_succeeds) blast
  qed
  show ?thesis using keys ex by blast
qed

theorem staleness_mapping_keys_witness:
  "paths_to_check example_fs example_directory \<noteq> []
   \<and> list_all (path_exists example_fs) (paths_to_check example_fs example_directory)
   \<and> weeks_since_touched example_fs 6048000 [example_directory] = Inr [(example_directory, 1)]
   \<and> set (dict_keys [(example_directory, 1 :: real)]) = set [example_directory]
   \<and> distinct (dict_keys [(example_directory, 1 :: real)])"
proof -
  have r: "weeks_since_touched example_fs 6048000 [example_directory]
      = Inr [(example_directory, 1)]"
    by (simp add: example_fs_def example_directory_def weeks_since_touched_def
      minimum_number_of_weeks_ago_def paths_to_check_def glob_star_def joinpath_def
      getmtime_def number_of_weeks_ago_def)
  have h: "\<forall>d\<in>set [example_directory]. paths_to_check example_fs d \<noteq> []
        \<and> (\<forall>p\<in>set (paths_to_check example_fs d). path_exists example_fs p)"
    by (simp add: example_fs_def example_directory_def paths_to_check_def glob_star_def
        joinpath_def path_exists_def)
  show ?thesis
    using staleness_mapping_keys [of example_fs 6048000 "[example_directory]"
        "[(example_directory, 1)]"] r h
    by (simp add: list_all_iff)
qed

section \<open>Properties of the archival selection\<close>

lemma determine_fold:
  "fold (\<lambda>(directory, weeks) acc. if weeks > t then acc @ [directory] else acc) m acc
   = acc @ map fst (filter (\<lambda>(d, w). t < w) m)"
  by (induction m arbitrary: acc) (auto split: prod.splits)

lemma determine_filter:
  "determine_directories_to_archive m t = map fst (filter (\<lambda>(d, w). t < w) m)"
  by (simp add: determine_directories_to_archive_def determine_fold)

lemma map_fst_filter_distinct:
  "distinct (map fst m) \<Longrightarrow>
   map fst (filter (\<lambda>(d, w). P w) m)
   = filter (\<lambda>d. case map_of m d of None \<Rightarrow> False | Some w \<Rightarrow> P w) (map fst m)"
proof (induction m)
  case Nil
  then show ?case by simp
next
  case (Cons a m)
  obtain k v where a: "a = (k, v)" by (cases a)
  have k: "k \<notin> fst ` set m" using Cons.prems a by simp
  have "filter (\<lambda>d. case map_of (a # m) d of None \<Rightarrow> False | Some w \<Rightarrow> P w) (map fst m)
      = filter (\<lambda>d. case map_of m d of None \<Rightarrow> False | Some w \<Rightarrow> P w) (map fst m)"
    using k a by (intro filter_cong) (auto)
  then show ?case using Cons a by simp
qed

lemma determine_select:
  assumes "distinct (dict_keys m)"
  shows "determine_directories_to_archive m t
       = filter (\<lambda>d. case dict_getitem m d of None \<Rightarrow> False | Some w \<Rightarrow> t < w) (dict_keys m)"
  using map_fst_filter_distinct [of m "\<lambda>w. t < w"] assms
  by (simp add: determine_filter dict_keys_def dict_getitem_def)

lemma determine_max:
  assumes "m \<noteq> []"
  shows "determine_directories_to_archive m (Max (snd ` set m)) = []"
proof -
  have "\<And>d w. (d, w) \<in> set m \<Longrightarrow> w \<le> Max (snd ` set m)"
    by (force intro: Max_ge)
  then have "\<And>d w. (d, w) \<in> set m \<Longrightarrow> \<not> Max (snd ` set m) < w"
    by (simp add: not_less)
  then show ?thesis
    by (auto simp: determine_filter filter_empty_conv)
qed

text \<open>A cache is sound when every stored result is the result of the function.\<close>

lemma cached_sound:
  assumes "\<forall>((m, t), r)\<in>set c. r = determine_directories_to_archive m t"
  shows "fst (cached_determine_directories_to_archive c m t)
           = determine_directories_to_archive m t"
    and "\<forall>((m, t), r)\<in>set (snd (cached_determine_directories_to_archive c m t)).
           r = determine_directories_to_archive m t"
  using assms
  by (auto simp: cached_determine_directories_to_archive_def Let_def
      split: option.splits dest!: map_of_SomeD)

lemma reachable_sound:
  "cache_reachable c \<Longrightarrow> \<forall>((m, t), r)\<in>set c. r = determine_directories_to_archive m t"
proof (induction rule: cache_reachable.induct)
  case empty
  then show ?case by simp
next
  case (call c m t)
  show ?case by (rule cached_sound(2) [OF call.IH])
qed

text \<open>
  C2: for a staleness dictionary (its keys are distinct) and a threshold \<open>T\<close>, the
  selection is the list of the keys \<open>d\<close> with \<open>staleness[d] > T\<close>, strictly, in the order
  of the dictionary; it is also the list of the first components of the items whose
  value is above \<open>T\<close>. With \<open>T = 0\<close> these are the directories of positive staleness, and
  with \<open>T\<close> the largest staleness of a non-empty dictionary nothing is selected. The
  statement holds for every real \<open>T\<close>, so for every \<open>T \<ge> 0\<close>.
\<close>

theorem archival_selection_strict_threshold:
  assumes "distinct (dict_keys weeks_sinces_touched)"
  shows "determine_directories_to_archive weeks_sinces_touched T
           = map fst (filter (\<lambda>(d, w). T < w) weeks_sinces_touched)
       \<and> determine_directories_to_archive weeks_sinces_touched T
           = filter (\<lambda>d. case dict_getitem weeks_sinces_touched d of
                            None \<Rightarrow> False | Some w \<Rightarrow> T < w)
                    (dict_keys weeks_sinces_touched)
       \<and> determine_directories_to_archive weeks_sinces_touched 0
           = filter (\<lambda>d. case dict_getitem weeks_sinces_touched d of
                            None \<Rightarrow> False | Some w \<Rightarrow> 0 < w)
                    (dict_keys weeks_sinces_touched)
       \<and> (weeks_sinces_touched \<noteq> [] \<longrightarrow>
            determine_directories_to_archive weeks_sinces_touched
              (Max (snd ` set weeks_sinces_touched)) = [])"
  using assms determine_select [of weeks_sinces_touched T]
    determine_select [of weeks_sinces_touched 0]
    determine_max [of weeks_sinces_touched] determine_filter [of weeks_sinces_touched T]
  by simp

theorem archival_selection_strict_threshold_witness:
  "distinct (dict_keys example_weeks)
   \<and> determine_directories_to_archive example_weeks 1 = [[''a''], [''c'']]
   \<and> determine_directories_to_archive example_weeks 0 = [[''a''], [''b''], [''c'']]
   \<and> determine_directories_to_archive example_weeks (Max (snd ` set example_weeks)) = []"
proof -
  have d: "distinct (dict_keys example_weeks)"
    by (simp add: example_weeks_def dict_keys_def)
  have ne: "example_weeks \<noteq> []" by (simp add: example_weeks_def)
  show ?thesis
    using archival_selection_strict_threshold [OF d, of 1]
      archival_selection_strict_threshold [OF d, of 0] d ne
    by (simp add: example_weeks_def dict_keys_def dict_getitem_def)
qed

text \<open>
  C9: the selection is deterministic and does not depend on hidden state. The only state
  behind the function is the cache of its decorator; in any two states that calls of the
  function can have produced, two invocations with the same dictionary and the same
  threshold return the same list, in the same order: the list the undecorated function
  computes from its two arguments alone.
\<close>

theorem archival_selection_deterministic:
  assumes "cache_reachable c" and "cache_reachable c'"
  shows "fst (cached_determine_directories_to_archive c m T)
           = fst (cached_determine_directories_to_archive c' m T)
       \<and> fst (cached_determine_directories_to_archive c m T)
           = determine_directories_to_archive m T"
  using assms by (simp add: cached_sound(1) reachable_sound)

theorem archival_selection_deterministic_witness:
  "fst (cached_determine_directories_to_archive [] example_weeks 1)
     = fst (cached_determine_directories_to_archive
              (snd (cached_determine_directories_to_archive [] example_weeks 1)) example_weeks 1)
   \<and> fst (cached_determine_directories_to_archive [] example_weeks 1) = [[''a''], [''c'']]"
proof -
  have r0: "cache_reachable []" by (rule cache_reachable.empty)
  have r1: "cache_reachable (snd (cached_determine_directories_to_archive [] example_weeks 1))"
    by (rule cache_reachable.call [OF r0])
  have v: "determine_directories_to_archive example_weeks 1 = [[''a''], [''c'']]"
    by (simp add: example_weeks_def determine_directories_to_archive_def)
  from archival_selection_deterministic [OF r0 r1, of example_weeks 1]
  show ?thesis unfolding v .
qed

section \<open>Properties of the move gate and of the verification\<close>

lemma fold_source_step:
  "fst (fold (source_step fs) ds st) = (if ds = [] then fst st else False)"
  by (induction ds arbitrary: st) (simp_all add: source_step_def)

lemma fold_destination_step:
  "fst (fold (destination_step fs) ds st) = (if ds = [] then fst st else False)"
  by (induction ds arbitrary: st) (simp_all add: destination_step_def)

text \<open>
  The flag after the three checks: the move is allowed exactly when nothing is selected
  and the holding directory has no entry.
\<close>

lemma allow_move_button_iff:
  "allow_move_button fs holding destination ds \<longleftrightarrow> ds = [] \<and> glob_star fs holding = []"
  by (simp add: allow_move_button_def move_gate_def holding_step_def fold_source_step
      fold_destination_step testing_final_locations_def)

text \<open>The half of the gate that holds: a failed precondition blocks the move.\<close>

lemma move_blocked_when_precondition_fails:
  assumes "(\<exists>d\<in>set ds. \<not> path_exists fs d)
         \<or> (\<exists>d\<in>set ds. path_exists fs (joinpath destination (path_name d)))
         \<or> glob_star fs holding \<noteq> []"
  shows "\<not> allow_move_button fs holding destination ds"
  using assms by (auto simp: allow_move_button_iff)

text \<open>
  C1: the move is blocked when a precondition fails, and allowed when all three hold.
  The code blocks the move for every non-empty selection: with one selected directory
  that exists, whose place in the archive is free, and an empty holding directory, all
  three preconditions hold and \<^verbatim>\<open>allow_move_button\<close> is \<^verbatim>\<open>False\<close>.
\<close>

theorem move_blocked_although_preconditions_hold:
  "path_exists example_fs example_directory
   \<and> \<not> path_exists example_fs (joinpath example_destination (path_name example_directory))
   \<and> glob_star example_fs example_holding = []
   \<and> \<not> allow_move_button example_fs example_holding example_destination [example_directory]"
  by (simp add: example_fs_def example_directory_def example_destination_def example_holding_def
      allow_move_button_def move_gate_def source_step_def destination_step_def holding_step_def
      testing_final_locations_def path_name_def joinpath_def path_exists_def glob_star_def)

lemma fold_test_step:
  "fold (test_step fs) (map (\<lambda>d. (d, f d)) ds) st =
     st\<lparr>directories_left_behind := directories_left_behind st @ filter (path_exists fs) ds,
        directories_not_in_archive :=
          directories_not_in_archive st @ filter (\<lambda>p. \<not> path_exists fs p) (map f ds),
        written := written st @ concat (map (\<lambda>d. item_errors fs d (f d)) ds)\<rparr>"
  by (induction ds arbitrary: st) (simp_all add: test_step_def Let_def item_errors_def)

lemma zip_map_self: "zip ds (map f ds) = map (\<lambda>d. (d, f d)) ds"
  by (induction ds) simp_all

lemma final_locations_map:
  "testing_final_locations dest ds = map (\<lambda>d. joinpath dest (path_name d)) ds"
  by (simp add: testing_final_locations_def)

lemma test_moves_eq:
  "test_moves fs dest ds =
    (let errs = concat (map (\<lambda>d. item_errors fs d (joinpath dest (path_name d))) ds);
         lb = filter (path_exists fs) ds;
         nia = filter (\<lambda>p. \<not> path_exists fs p) (testing_final_locations dest ds)
     in \<lparr>directories_left_behind = lb, directories_not_in_archive = nia,
         written = (if lb = [] \<and> nia = [] then errs @ [Success_all_moves] else errs)\<rparr>)"
  by (simp add: test_moves_def final_locations_map zip_map_self fold_test_step Let_def)

lemma success_notin_item: "Success_all_moves \<notin> set (item_errors fs a b)"
  by (simp add: item_errors_def)

lemma left_in_item:
  "Error_left_behind x \<in> set (item_errors fs a b) \<longleftrightarrow> x = a \<and> path_exists fs a"
  by (auto simp: item_errors_def)

lemma not_in_archive_in_item:
  "Error_not_in_archive y \<in> set (item_errors fs a b) \<longleftrightarrow> y = b \<and> \<not> path_exists fs b"
  by (auto simp: item_errors_def)

text \<open>
  C8: the verification looks at every selected directory: the directories that still
  exist are the ones left behind, the archive places \<open>archive_root/name\<close> that do not
  exist are the ones not in the archive; for each selected directory the error
  \<open>left behind\<close> is written exactly when it still exists and the error \<open>not found in
  archive\<close> exactly when its archive place does not exist; and success is reported
  exactly when no selected directory fails either check.
\<close>

theorem test_moves_reports:
  "directories_left_behind (test_moves fs dest ds) = filter (path_exists fs) ds
   \<and> directories_not_in_archive (test_moves fs dest ds)
       = filter (\<lambda>p. \<not> path_exists fs p) (testing_final_locations dest ds)
   \<and> (\<forall>d\<in>set ds.
        (Error_left_behind d \<in> set (written (test_moves fs dest ds)) \<longleftrightarrow> path_exists fs d)
      \<and> (Error_not_in_archive (joinpath dest (path_name d))
            \<in> set (written (test_moves fs dest ds))
           \<longleftrightarrow> \<not> path_exists fs (joinpath dest (path_name d))))
   \<and> (reports_success (test_moves fs dest ds)
        \<longleftrightarrow> (\<forall>d\<in>set ds. \<not> path_exists fs d \<and> path_exists fs (joinpath dest (path_name d))))"
proof (intro conjI ballI)
  show "directories_left_behind (test_moves fs dest ds) = filter (path_exists fs) ds"
    by (simp add: test_moves_eq Let_def)
  show "directories_not_in_archive (test_moves fs dest ds)
       = filter (\<lambda>p. \<not> path_exists fs p) (testing_final_locations dest ds)"
    by (simp add: test_moves_eq Let_def)
  show "reports_success (test_moves fs dest ds)
        \<longleftrightarrow> (\<forall>d\<in>set ds. \<not> path_exists fs d \<and> path_exists fs (joinpath dest (path_name d)))"
    by (auto simp: reports_success_def test_moves_eq Let_def success_notin_item
        filter_empty_conv final_locations_map)
next
  fix d assume d: "d \<in> set ds"
  show "Error_left_behind d \<in> set (written (test_moves fs dest ds)) \<longleftrightarrow> path_exists fs d"
    using d by (auto simp: test_moves_eq Let_def left_in_item)
  show "Error_not_in_archive (joinpath dest (path_name d))
          \<in> set (written (test_moves fs dest ds))
        \<longleftrightarrow> \<not> path_exists fs (joinpath dest (path_name d))"
    using d by (auto simp: test_moves_eq Let_def not_in_archive_in_item)
qed

theorem test_moves_reports_witness:
  "\<not> path_exists moved_fs example_directory
   \<and> path_exists moved_fs (joinpath example_destination (path_name example_directory))
   \<and> reports_success (test_moves moved_fs example_destination [example_directory])
   \<and> directories_left_behind (test_moves moved_fs example_destination [example_directory]) = []
   \<and> path_exists example_fs example_directory
   \<and> Error_left_behind example_directory
        \<in> set (written (test_moves example_fs example_destination [example_directory]))
   \<and> \<not> reports_success (test_moves example_fs example_destination [example_directory])"
proof -
  have moved: "\<not> path_exists moved_fs example_directory"
    "path_exists moved_fs (joinpath example_destination (path_name example_directory))"
    by (simp_all add: moved_fs_def example_directory_def example_destination_def path_exists_def
        joinpath_def path_name_def)
  have left: "path_exists example_fs example_directory"
    by (simp add: example_fs_def example_directory_def path_exists_def)
  show ?thesis
    using test_moves_reports [of moved_fs example_destination "[example_directory]"]
      test_moves_reports [of example_fs example_destination "[example_directory]"]
      moved left
    by simp
qed

end
